theory Spec2Isabelle
  imports Main "HOL-Library.AList"
begin

section \<open>JavaScript values\<close>

text \<open>
  Virtual nodes, attribute values, store states and actions of \<^verbatim>\<open>frame.js\<close> are untyped
  JavaScript values. A function value is known by its identity only. An array is dense.
  An object is a plain data object: its own enumerable string-keyed properties, in the order
  \<^verbatim>\<open>Object.entries\<close> reports them, with distinct keys; it has no method of its own.
  A number is an integer.
\<close>

datatype jsval =
    Undefined
  | Null
  | Bool bool
  | Num int
  | Str string
  | Fun nat
  | Arr "jsval list"
  | Obj "(string \<times> jsval) list"

text \<open>
  How a call ends when it does not return. \<open>TypeError\<close> and \<open>HierarchyRequestError\<close> are
  the exceptions that the code's own steps raise. The other two say where the run leaves
  what is known here, and it is followed no further: \<open>UserFunction f\<close>, a call went to the
  function value \<open>f\<close> that a node's attributes put in the place of a host method;
  \<open>PrototypeReplaced\<close>, an assignment gave an element another prototype than the host's.
\<close>

datatype error = TypeError | HierarchyRequestError | UserFunction nat | PrototypeReplaced

fun truthy :: "jsval \<Rightarrow> bool" where
  \<comment> \<open>the left operand of \<^verbatim>\<open>||\<close> decides by this\<close>
  "truthy Undefined = False"
| "truthy Null = False"
| "truthy (Bool b) = b"
| "truthy (Num n) = (n \<noteq> 0)"
| "truthy (Str s) = (s \<noteq> [])"
| "truthy (Fun f) = True"
| "truthy (Arr xs) = True"
| "truthy (Obj kvs) = True"

fun index_key :: "nat \<Rightarrow> string" where
  \<comment> \<open>the property key of an array index: its decimal digits\<close>
  "index_key n =
     (if n < 10 then [char_of (48 + n)]
      else index_key (n div 10) @ [char_of (48 + n mod 10)])"

declare index_key.simps [simp del]

fun own_entries :: "jsval \<Rightarrow> (string \<times> jsval) list" where
  \<comment> \<open>the own enumerable properties that \<^verbatim>\<open>Object.entries\<close> and the object spread
      \<^verbatim>\<open>{ ...v }\<close> read: an array and a string have their indices, the other
      primitives and functions have none\<close>
  "own_entries (Obj kvs) = kvs"
| "own_entries (Arr xs) = zip (map index_key [0..<length xs]) xs"
| "own_entries (Str s) = zip (map index_key [0..<length s]) (map (\<lambda>c. Str [c]) s)"
| "own_entries v = []"

definition Object_entries :: "jsval \<Rightarrow> error + (string \<times> jsval) list" where
  \<comment> \<open>\<^verbatim>\<open>Object.entries(v)\<close> raises on \<^verbatim>\<open>undefined\<close> and \<^verbatim>\<open>null\<close>\<close>
  "Object_entries v =
     (if v = Undefined \<or> v = Null then Inl TypeError else Inr (own_entries v))"

fun get_own :: "jsval \<Rightarrow> string \<Rightarrow> error + jsval" where
  \<comment> \<open>the property reads \<^verbatim>\<open>vNode.type\<close> and \<^verbatim>\<open>vNode.props\<close>: no built-in prototype
      defines either name, so only an object's own property supplies a value; reading a
      property of \<^verbatim>\<open>undefined\<close> or \<^verbatim>\<open>null\<close> raises\<close>
  "get_own Undefined k = Inl TypeError"
| "get_own Null k = Inl TypeError"
| "get_own (Obj kvs) k = Inr (case map_of kvs k of Some x \<Rightarrow> x | None \<Rightarrow> Undefined)"
| "get_own v k = Inr Undefined"

section \<open>Virtual nodes\<close>

text \<open>
  \<^verbatim>\<open>createElement = (type, props = {}, ...children) => { type, props: { ...props, children } }\<close>.
  The default replaces an \<^verbatim>\<open>undefined\<close> second argument only. The rest parameter is the
  list of the remaining arguments as they were passed. In the object literal the spread copies
  the own properties of \<^verbatim>\<open>props\<close> in order and \<^verbatim>\<open>children\<close> is written after them:
  a key that is already there keeps its place and takes the new value.
\<close>

definition createElement :: "jsval \<Rightarrow> jsval \<Rightarrow> jsval list \<Rightarrow> jsval" where
  "createElement type props children =
     (let props = (if props = Undefined then Obj [] else props)
      in Obj [(''type'', type),
              (''props'', Obj (AList.update ''children'' (Arr children) (own_entries props)))])"

subsection \<open>The same function on a heap of objects\<close>

text \<open>
  Whether \<^verbatim>\<open>createElement\<close> changes an object of its caller is a question about object
  identity, so the function is also written over a heap: objects live at addresses, a property
  holds a primitive or a reference, and every array or object literal allocates a new cell.
\<close>

type_synonym address = nat

datatype hvalue =
    HUndefined | HNull | HBool bool | HNum int | HStr string | HFun nat | Ref address

datatype hobject = Array "hvalue list" | Object "(string \<times> hvalue) list"

type_synonym heap = "hobject list"

definition alloc :: "hobject \<Rightarrow> heap \<Rightarrow> address \<times> heap" where
  "alloc obj h = (length h, h @ [obj])"

fun deref :: "heap \<Rightarrow> hvalue \<Rightarrow> hobject option" where
  "deref h (Ref a) = (if a < length h then Some (h ! a) else None)"
| "deref h v = None"

definition entries_at :: "heap \<Rightarrow> hvalue \<Rightarrow> (string \<times> hvalue) list" where
  "entries_at h v =
     (case v of
        HStr s \<Rightarrow> zip (map index_key [0..<length s]) (map (\<lambda>c. HStr [c]) s)
      | _ \<Rightarrow>
          (case deref h v of
             Some (Object kvs) \<Rightarrow> kvs
           | Some (Array xs) \<Rightarrow> zip (map index_key [0..<length xs]) xs
           | None \<Rightarrow> []))"

definition property :: "heap \<Rightarrow> hvalue \<Rightarrow> string \<Rightarrow> hvalue option" where
  "property h v k = (case deref h v of Some (Object kvs) \<Rightarrow> map_of kvs k | _ \<Rightarrow> None)"

definition createElement_heap ::
  "hvalue \<Rightarrow> hvalue \<Rightarrow> hvalue list \<Rightarrow> heap \<Rightarrow> hvalue \<times> heap" where
  "createElement_heap type props children h =
     (let (props, h) =
            (if props = HUndefined
             then (let (a, h) = alloc (Object []) h in (Ref a, h))
             else (props, h));
          (c, h) = alloc (Array children) h;
          (p, h) = alloc (Object (AList.update ''children'' (Ref c) (entries_at h props))) h;
          (v, h) = alloc (Object [(''type'', type), (''props'', Ref p)]) h
      in (Ref v, h))"

text \<open>
  A heap value represents a tree of \<^typ>\<open>jsval\<close> when following its references spells
  that tree out.
\<close>

inductive represents :: "heap \<Rightarrow> hvalue \<Rightarrow> jsval \<Rightarrow> bool" where
  "represents h HUndefined Undefined"
| "represents h HNull Null"
| "represents h (HBool b) (Bool b)"
| "represents h (HNum i) (Num i)"
| "represents h (HStr s) (Str s)"
| "represents h (HFun f) (Fun f)"
| "deref h (Ref a) = Some (Array xs) \<Longrightarrow> list_all2 (represents h) xs vs \<Longrightarrow>
   represents h (Ref a) (Arr vs)"
| "deref h (Ref a) = Some (Object kvs) \<Longrightarrow>
   list_all2 (\<lambda>kx kv. fst kx = fst kv \<and> represents h (snd kx) (snd kv)) kvs kvs' \<Longrightarrow>
   represents h (Ref a) (Obj kvs')"

section \<open>The host document\<close>

text \<open>
  The document the renderer writes to is outside the repository. The model keeps what the code
  relies on. An element records the type value it was requested with, its own properties (the
  last write to a key wins) and its children in order. \<^verbatim>\<open>element[key] = value\<close> creates
  or overwrites an own property, but for two names. \<^verbatim>\<open>innerHTML\<close> is the one property whose
  setter the code itself uses (\<^verbatim>\<open>container.innerHTML = ''\<close> empties the container):
  assigning it replaces the children by what the host parses out of the value and creates no
  own property. \<open>Markup x\<close> stands for the nodes, none or more, that the host parses out of
  \<open>x\<close>; the empty string gives none. \<^verbatim>\<open>__proto__\<close> is the language's accessor for the
  prototype of every object: assigning it an object or \<^verbatim>\<open>null\<close> replaces the element's
  prototype, assigning it anything else does nothing, and neither creates an own property.
  A method the code calls on an element, \<^verbatim>\<open>appendChild\<close>, is found by property lookup: an
  own property of that name is found before the host's method. What a particular host does
  beyond that, such as rejecting a tag name or running the setter behind another property,
  is not part of the model.
\<close>

datatype dom =
    TextNode string
  | Element jsval "(string \<times> jsval) list" "dom list"
  | Markup jsval

definition document_createTextNode :: "string \<Rightarrow> dom" where
  "document_createTextNode s = TextNode s"

definition document_createElement :: "jsval \<Rightarrow> dom" where
  "document_createElement t = Element t [] []"

definition parsed :: "jsval \<Rightarrow> dom list" where
  "parsed x = (if x = Str [] then [] else [Markup x])"

fun set_innerHTML :: "jsval \<Rightarrow> dom \<Rightarrow> dom" where
  \<comment> \<open>\<^verbatim>\<open>node.innerHTML = value\<close>\<close>
  "set_innerHTML x (Element t ps cs) = Element t ps (parsed x)"
| "set_innerHTML x (TextNode s) = TextNode s"
| "set_innerHTML x (Markup y) = Markup y"

fun is_primitive :: "jsval \<Rightarrow> bool" where
  "is_primitive Undefined = True"
| "is_primitive (Bool b) = True"
| "is_primitive (Num n) = True"
| "is_primitive (Str s) = True"
| "is_primitive v = False"

fun set_property :: "string \<Rightarrow> jsval \<Rightarrow> dom \<Rightarrow> error + dom" where
  \<comment> \<open>\<^verbatim>\<open>element[key] = value\<close>; the code assigns to elements only\<close>
  "set_property k x (Element t ps cs) =
     (if k = ''innerHTML'' then Inr (set_innerHTML x (Element t ps cs))
      else if k = ''__proto__''
      then (if is_primitive x then Inr (Element t ps cs) else Inl PrototypeReplaced)
      else Inr (Element t (AList.update k x ps) cs))"
| "set_property k x (TextNode s) = Inr (TextNode s)"
| "set_property k x (Markup y) = Inr (Markup y)"

fun appendChild :: "dom \<Rightarrow> dom \<Rightarrow> error + dom" where
  \<comment> \<open>\<^verbatim>\<open>parent.appendChild(child)\<close>, the parent given last: the value found under the
      name is called, the host's method when the parent has no own property of that name;
      a value that is not a function cannot be called; a text node takes no child\<close>
  "appendChild child (Element t ps cs) =
     (case map_of ps ''appendChild'' of
        None \<Rightarrow> Inr (Element t ps (cs @ [child]))
      | Some (Fun f) \<Rightarrow> Inl (UserFunction f)
      | Some _ \<Rightarrow> Inl TypeError)"
| "appendChild child (TextNode s) = Inl HierarchyRequestError"
| "appendChild child (Markup y) = Inl HierarchyRequestError"

definition clear_innerHTML :: "dom \<Rightarrow> dom" where
  \<comment> \<open>\<^verbatim>\<open>container.innerHTML = ''\<close>\<close>
  "clear_innerHTML container = set_innerHTML (Str []) container"

fun childNodes :: "dom \<Rightarrow> dom list" where
  "childNodes (Element t ps cs) = cs"
| "childNodes (TextNode s) = []"
| "childNodes (Markup y) = []"

section \<open>The materializer and the renderer\<close>

text \<open>
  \<^verbatim>\<open>renderElement\<close> walks the entries of \<^verbatim>\<open>vNode.props || {}\<close> in order. Under the key
  \<^verbatim>\<open>children\<close> it calls \<^verbatim>\<open>value.forEach\<close>, which only an array has, rendering each
  child and appending it; any other entry is assigned to the element. The two loops take the
  function that renders a child as a parameter, as the callbacks in the source do.
\<close>

primrec append_children :: "(jsval \<Rightarrow> error + dom) \<Rightarrow> jsval list \<Rightarrow> dom \<Rightarrow> error + dom" where
  "append_children r [] element = Inr element"
| "append_children r (child # rest) element =
     (case r child of
        Inl e \<Rightarrow> Inl e
      | Inr node \<Rightarrow>
          (case appendChild node element of
             Inl e \<Rightarrow> Inl e
           | Inr element' \<Rightarrow> append_children r rest element'))"

definition forEach_child :: "(jsval \<Rightarrow> error + dom) \<Rightarrow> jsval \<Rightarrow> dom \<Rightarrow> error + dom" where
  "forEach_child r val element =
     (case val of Arr cs \<Rightarrow> append_children r cs element | _ \<Rightarrow> Inl TypeError)"

primrec assign_entries ::
  "(jsval \<Rightarrow> error + dom) \<Rightarrow> (string \<times> jsval) list \<Rightarrow> dom \<Rightarrow> error + dom" where
  "assign_entries r [] element = Inr element"
| "assign_entries r (entry # rest) element =
     (if fst entry = ''children''
      then (case forEach_child r (snd entry) element of
              Inl e \<Rightarrow> Inl e
            | Inr element' \<Rightarrow> assign_entries r rest element')
      else (case set_property (fst entry) (snd entry) element of
              Inl e \<Rightarrow> Inl e
            | Inr element' \<Rightarrow> assign_entries r rest element'))"

subsection \<open>Termination of the materializer\<close>

text \<open>
  The loops call the renderer on the members of a \<^verbatim>\<open>children\<close> array only, and such an
  array is a proper part of the node it was read from.
\<close>

lemma append_children_cong:
  "(\<And>c. c \<in> set cs \<Longrightarrow> r c = r' c) \<Longrightarrow> append_children r cs el = append_children r' cs el"
  by (induction cs arbitrary: el) (simp_all split: sum.splits)

lemma forEach_child_cong:
  "(\<And>cs c. v = Arr cs \<Longrightarrow> c \<in> set cs \<Longrightarrow> r c = r' c) \<Longrightarrow>
   forEach_child r v el = forEach_child r' v el"
proof (cases v)
  case (Arr cs)
  assume "\<And>cs c. v = Arr cs \<Longrightarrow> c \<in> set cs \<Longrightarrow> r c = r' c"
  with Arr have "append_children r cs el = append_children r' cs el"
    by (intro append_children_cong) simp
  with Arr show ?thesis by (simp add: forEach_child_def)
qed (simp_all add: forEach_child_def)

lemma assign_entries_cong [fundef_cong]:
  assumes "es = es'" and "el = el'"
    and "\<And>cs c. (''children'', Arr cs) \<in> set es' \<Longrightarrow> c \<in> set cs \<Longrightarrow> r c = r' c"
  shows "assign_entries r es el = assign_entries r' es' el'"
  using assms(3) unfolding assms(1,2)
proof (induction es' arbitrary: el')
  case Nil
  show ?case by simp
next
  case (Cons entry rest)
  obtain k x where entry: "entry = (k, x)" by (cases entry)
  have rest: "assign_entries r rest y = assign_entries r' rest y" for y
    by (rule Cons.IH) (rule Cons.prems, simp_all)
  show ?case
  proof (cases "k = ''children''")
    case True
    have "forEach_child r x el' = forEach_child r' x el'"
      by (rule forEach_child_cong) (rule Cons.prems, simp_all add: entry True)
    then show ?thesis
      by (simp add: entry True rest split: sum.splits)
  next
    case False
    then show ?thesis
      by (simp add: entry rest split: sum.splits)
  qed
qed

lemma index_key_last: "last (index_key n) = char_of (48 + n mod 10)"
  by (subst index_key.simps) simp

lemma index_key_not_children: "index_key n \<noteq> ''children''"
proof
  assume "index_key n = ''children''"
  then have "last (index_key n) = CHR ''n''" by simp
  then have "char_of (48 + n mod 10) = CHR ''n''" by (simp add: index_key_last)
  then have "of_char (char_of (48 + n mod 10) :: char) = (of_char CHR ''n'' :: nat)" by simp
  moreover have "48 + n mod 10 < 256" by simp
  ultimately have "48 + n mod 10 = (110::nat)" by simp
  then show False by presburger
qed

lemma children_entry_of_object:
  assumes "(''children'', x) \<in> set (own_entries q)"
  shows "\<exists>kvs. q = Obj kvs \<and> (''children'', x) \<in> set kvs"
proof (cases q)
  case (Arr xs)
  with assms have "''children'' \<in> set (map index_key [0..<length xs])"
    by (auto dest: set_zip_leftD)
  then obtain n where "''children'' = index_key n" by auto
  then show ?thesis by (metis index_key_not_children)
next
  case (Str s)
  with assms have "''children'' \<in> set (map index_key [0..<length s])"
    by (auto dest: set_zip_leftD)
  then obtain n where "''children'' = index_key n" by auto
  then show ?thesis by (metis index_key_not_children)
qed (use assms in simp_all)

lemma size_entry: "(k, x) \<in> set kvs \<Longrightarrow> size x < size (Obj kvs)"
  by (induction kvs) auto

lemma size_element: "c \<in> set cs \<Longrightarrow> size c < size (Arr cs)"
  by (induction cs) auto

lemma size_get_own: "get_own v k = Inr p \<Longrightarrow> size p \<le> size v"
proof (cases v)
  case (Obj kvs)
  assume "get_own v k = Inr p"
  with Obj show ?thesis
    by (auto split: option.splits dest!: map_of_SomeD size_entry)
qed auto

lemma child_smaller:
  assumes "get_own v ''props'' = Inr p"
    and "Object_entries (if truthy p then p else Obj []) = Inr es"
    and "(''children'', Arr cs) \<in> set es" and "c \<in> set cs"
  shows "size c < size v"
proof -
  have "(''children'', Arr cs) \<in> set (own_entries p)"
    using assms(2,3) by (auto simp: Object_entries_def split: if_splits)
  then obtain kvs where "p = Obj kvs" "(''children'', Arr cs) \<in> set kvs"
    using children_entry_of_object by blast
  then have "size (Arr cs) < size p" by (metis size_entry)
  with size_element [OF assms(4)] size_get_own [OF assms(1)] show ?thesis by simp
qed

function renderElement :: "jsval \<Rightarrow> error + dom" where
  "renderElement vNode =
     (case vNode of
        Str s \<Rightarrow> Inr (document_createTextNode s)
      | _ \<Rightarrow>
          (case get_own vNode ''type'' of
             Inl e \<Rightarrow> Inl e
           | Inr t \<Rightarrow>
               (case get_own vNode ''props'' of
                  Inl e \<Rightarrow> Inl e
                | Inr p \<Rightarrow>
                    (case Object_entries (if truthy p then p else Obj []) of
                       Inl e \<Rightarrow> Inl e
                     | Inr es \<Rightarrow> assign_entries renderElement es (document_createElement t)))))"
  by pat_completeness auto
termination
  by (relation "measure size")
    (simp only: wf_measure, (simp only: in_measure, (erule child_smaller; assumption))+)

definition render :: "jsval \<Rightarrow> dom \<Rightarrow> error option \<times> dom" where
  "render vNode container =
     (let container' = clear_innerHTML container
      in case renderElement vNode of
           Inl e \<Rightarrow> (Some e, container')
         | Inr node \<Rightarrow>
             (case appendChild node container' of
                Inl e \<Rightarrow> (Some e, container')
              | Inr container'' \<Rightarrow> (None, container'')))"

section \<open>The store\<close>

text \<open>
  \<^verbatim>\<open>createStore\<close> returns three closures over the variables \<^verbatim>\<open>state\<close> and
  \<^verbatim>\<open>listeners\<close> and the parameter \<^verbatim>\<open>reducer\<close>. The record holds that closure
  environment; every operation takes it and returns it updated.

  A listener is a function value, compared by identity (\<^verbatim>\<open>l !== listener\<close>); the model
  names it by a number. The reducer is a pure, total function of the previous state and the
  action, as the glossary of the specification requires.

  What a listener does when it is called is its behaviour: it finds the store as it is at
  that moment, so it can read the state, and a world \<open>'w\<close> outside the store; it leaves
  both as it pleases, the store changed when it called back into it, and either returns or
  throws a value.
\<close>

type_synonym listener = nat

record store =
  reducer :: "jsval \<Rightarrow> jsval \<Rightarrow> jsval"
  state :: jsval
  listeners :: "listener list"

definition INIT :: jsval where
  \<comment> \<open>the object literal \<^verbatim>\<open>{ type: '__INIT__' }\<close>\<close>
  "INIT = Obj [(''type'', Str ''__INIT__'')]"

definition createStore :: "(jsval \<Rightarrow> jsval \<Rightarrow> jsval) \<Rightarrow> store" where
  "createStore r = \<lparr>reducer = r, state = r Undefined INIT, listeners = []\<rparr>"

definition getState :: "store \<Rightarrow> jsval" where
  "getState st = state st"

type_synonym 'w behaviour = "listener \<Rightarrow> store \<times> 'w \<Rightarrow> jsval option \<times> store \<times> 'w"

text \<open>
  \<^verbatim>\<open>listeners.forEach(listener => listener())\<close>. \<^verbatim>\<open>forEach\<close> reads the length of the
  array once and then visits the indices below it in order; at each index it calls the
  callback on the member the array holds there at that moment, and skips an index the array
  no longer has. An exception thrown by a listener ends the loop and is thrown on.
  \<open>notify invoke n k\<close> visits the \<open>n\<close> indices from \<open>k\<close> on.
\<close>

primrec notify :: "'w behaviour \<Rightarrow> nat \<Rightarrow> nat \<Rightarrow> store \<times> 'w \<Rightarrow> jsval option \<times> store \<times> 'w" where
  "notify invoke 0 k sw = (None, sw)"
| "notify invoke (Suc n) k sw =
     (if k < length (listeners (fst sw))
      then (case invoke (listeners (fst sw) ! k) sw of
              (None, sw') \<Rightarrow> notify invoke n (Suc k) sw'
            | (Some thrown, sw') \<Rightarrow> (Some thrown, sw'))
      else notify invoke n (Suc k) sw)"

definition dispatch_general ::
  "'w behaviour \<Rightarrow> jsval \<Rightarrow> store \<times> 'w \<Rightarrow> jsval option \<times> store \<times> 'w" where
  \<comment> \<open>\<^verbatim>\<open>dispatch\<close> for listeners of any behaviour: the thrown value if a listener threw,
      the store and the world afterwards\<close>
  "dispatch_general invoke action sw =
     (let st = fst sw;
          st' = st\<lparr>state := reducer st (state st) action\<rparr>
      in notify invoke (length (listeners st')) 0 (st', snd sw))"

text \<open>
  A listener that only acts on the world outside the store returns normally and leaves the
  store as it found it. \<^verbatim>\<open>dispatch\<close> with such listeners always returns, and its result is
  the store and the world afterwards.
\<close>

definition outside :: "(listener \<Rightarrow> 'w \<Rightarrow> 'w) \<Rightarrow> 'w behaviour" where
  "outside invoke l sw = (None, fst sw, invoke l (snd sw))"

definition dispatch :: "(listener \<Rightarrow> 'w \<Rightarrow> 'w) \<Rightarrow> jsval \<Rightarrow> store \<times> 'w \<Rightarrow> store \<times> 'w" where
  "dispatch invoke action sw = snd (dispatch_general (outside invoke) action sw)"

definition forEach :: "('a \<Rightarrow> 'w \<Rightarrow> 'w) \<Rightarrow> 'a list \<Rightarrow> 'w \<Rightarrow> 'w" where
  \<comment> \<open>\<^verbatim>\<open>Array.prototype.forEach\<close> with a callback that leaves the array alone\<close>
  "forEach f xs w = fold f xs w"

definition unsubscribe :: "listener \<Rightarrow> store \<Rightarrow> listener list \<times> store" where
  \<comment> \<open>\<^verbatim>\<open>() => listeners.filter(l => l !== listener)\<close>: the filtered copy is the
      closure's return value; the array the store holds is not assigned\<close>
  "unsubscribe listener st = (filter (\<lambda>l. l \<noteq> listener) (listeners st), st)"

definition subscribe :: "listener \<Rightarrow> store \<Rightarrow> (store \<Rightarrow> listener list \<times> store) \<times> store" where
  \<comment> \<open>\<^verbatim>\<open>listeners.push(listener)\<close>, then the unsubscribe closure is returned\<close>
  "subscribe listener st =
     (unsubscribe listener, st\<lparr>listeners := listeners st @ [listener]\<rparr>)"

text \<open>
  The tutorial shipped with the code (\<^verbatim>\<open>src/unnamed/part_000\<close>) prints the store with
  another unsubscribe closure, which looks the listener up with \<^verbatim>\<open>indexOf\<close> and removes
  that one entry in place with \<^verbatim>\<open>splice\<close>.
\<close>

fun indexOf :: "'a list \<Rightarrow> 'a \<Rightarrow> int" where
  "indexOf [] x = - 1"
| "indexOf (y # ys) x =
     (if y = x then 0 else (let i = indexOf ys x in if i = - 1 then - 1 else i + 1))"

definition splice1 :: "nat \<Rightarrow> 'a list \<Rightarrow> 'a list" where
  \<comment> \<open>the array after \<^verbatim>\<open>splice(index, 1)\<close>\<close>
  "splice1 index xs = take index xs @ drop (Suc index) xs"

definition unsubscribe_tutorial :: "listener \<Rightarrow> store \<Rightarrow> store" where
  "unsubscribe_tutorial listener st =
     (let index = indexOf (listeners st) listener
      in if index > - 1 then st\<lparr>listeners := splice1 (nat index) (listeners st)\<rparr> else st)"

definition subscribe_tutorial :: "listener \<Rightarrow> store \<Rightarrow> (store \<Rightarrow> store) \<times> store" where
  "subscribe_tutorial listener st =
     (unsubscribe_tutorial listener, st\<lparr>listeners := listeners st @ [listener]\<rparr>)"

text \<open>
  A client of the store calls its operations one after the other.
\<close>

datatype call = Dispatch jsval | Subscribe listener | Unsubscribe listener

fun perform :: "(listener \<Rightarrow> 'w \<Rightarrow> 'w) \<Rightarrow> call \<Rightarrow> store \<times> 'w \<Rightarrow> store \<times> 'w" where
  "perform invoke (Dispatch action) sw = dispatch invoke action sw"
| "perform invoke (Subscribe l) sw = (snd (subscribe l (fst sw)), snd sw)"
| "perform invoke (Unsubscribe l) sw = (snd (unsubscribe l (fst sw)), snd sw)"

definition run :: "(listener \<Rightarrow> 'w \<Rightarrow> 'w) \<Rightarrow> call list \<Rightarrow> store \<times> 'w \<Rightarrow> store \<times> 'w" where
  "run invoke cs sw = fold (perform invoke) cs sw"

fun dispatched :: "call list \<Rightarrow> jsval list" where
  "dispatched [] = []"
| "dispatched (Dispatch action # cs) = action # dispatched cs"
| "dispatched (c # cs) = dispatched cs"

text \<open>
  The listener world used to count notifications: the log of the listeners called so far,
  oldest first.
\<close>

definition record_call :: "listener \<Rightarrow> listener list \<Rightarrow> listener list" where
  "record_call l log = log @ [l]"

definition calls :: "listener \<Rightarrow> listener list \<Rightarrow> nat" where
  "calls l log = count_list log l"




definition latest :: "jsval \<Rightarrow> jsval \<Rightarrow> jsval" where
  "latest s action = action"

section \<open>Virtual node trees as the specification describes them\<close>

text \<open>
  The data model of the specification: a virtual node is a text node, a raw string, or an
  element node with a tag, a mapping of attributes and an ordered sequence of child nodes.
  \<open>toJS\<close> is the value application code builds for such a tree, a string literal or a call
  of \<^verbatim>\<open>createElement\<close>. The name \<^verbatim>\<open>children\<close> is reserved and attribute keys are those
  of a mapping: \<open>well_formed\<close> says so. \<open>isomorphic\<close> is the specification's reading of
  "structurally isomorphic": same tag, same attributes, same text, children isomorphic one by
  one in order.
\<close>

datatype vnode = VText string | VElement string "(string \<times> jsval) list" "vnode list"

fun toJS :: "vnode \<Rightarrow> jsval" where
  "toJS (VText s) = Str s"
| "toJS (VElement tag attributes children) =
     createElement (Str tag) (Obj attributes) (map toJS children)"

fun well_formed :: "vnode \<Rightarrow> bool" where
  "well_formed (VText s) = True"
| "well_formed (VElement tag attributes children) =
     (distinct (map fst attributes) \<and> ''children'' \<notin> set (map fst attributes)
      \<and> list_all well_formed children)"



section \<open>Properties of the store\<close>

lemma notify_settled:
  assumes "\<forall>l\<in>set (listeners st). \<forall>w.
             fst (invoke l (st, w)) = None \<and> fst (snd (invoke l (st, w))) = st"
  shows "notify invoke n k (st, w) =
           (None, st, fold (\<lambda>l w. snd (snd (invoke l (st, w)))) (take n (drop k (listeners st))) w)"
proof (induction n arbitrary: k w)
  case 0
  show ?case by simp
next
  case (Suc n)
  show ?case
  proof (cases "k < length (listeners st)")
    case True
    then have member: "listeners st ! k \<in> set (listeners st)" by simp
    obtain w' where step: "invoke (listeners st ! k) (st, w) = (None, st, w')"
      using assms member by (metis prod.collapse)
    have "drop k (listeners st) = listeners st ! k # drop (Suc k) (listeners st)"
      using True by (simp add: Cons_nth_drop_Suc)
    then show ?thesis
      using True Suc.IH [of "Suc k" w'] by (simp add: step)
  next
    case False
    then show ?thesis using Suc.IH [of "Suc k" w] by simp
  qed
qed

lemma dispatch_plain:
  "dispatch invoke action sw =
     (let st = fst sw;
          st' = st\<lparr>state := reducer st (state st) action\<rparr>
      in (st', forEach invoke (listeners st') (snd sw)))"
  using notify_settled
    [of "(fst sw)\<lparr>state := reducer (fst sw) (state (fst sw)) action\<rparr>" "outside invoke"
        "length (listeners (fst sw))" 0 "snd sw"]
  by (simp add: dispatch_def dispatch_general_def Let_def forEach_def outside_def)

lemma forEach_record_call: "forEach record_call ls log = log @ ls"
  unfolding forEach_def
  by (induction ls arbitrary: log) (simp_all add: record_call_def)

lemma calls_append: "calls l (xs @ ys) = calls l xs + calls l ys"
  unfolding calls_def by (induction xs) simp_all

lemma calls_replicate: "calls l (replicate n l) = n"
  unfolding calls_def by (induction n) simp_all

lemma subscribe_funpow:
  "listeners (((\<lambda>s. snd (subscribe l s)) ^^ n) st) = listeners st @ replicate n l"
  by (induction n arbitrary: st) (simp_all add: subscribe_def replicate_append_same)

lemma indexOf_absent: "x \<notin> set xs \<Longrightarrow> indexOf xs x = - 1"
  by (induction xs) (auto simp add: Let_def)

lemma indexOf_ge: "- 1 \<le> indexOf xs x"
  by (induction xs) (simp_all add: Let_def)

lemma indexOf_snoc: "x \<notin> set xs \<Longrightarrow> indexOf (xs @ [x]) x = int (length xs)"
  by (induction xs) (auto simp add: Let_def)

lemma splice_indexOf:
  "x \<in> set xs \<Longrightarrow> 0 \<le> indexOf xs x \<and> splice1 (nat (indexOf xs x)) xs = remove1 x xs"
proof (induction xs)
  case Nil
  then show ?case by simp
next
  case (Cons y ys)
  show ?case
  proof (cases "y = x")
    case True
    then show ?thesis by (simp add: splice1_def)
  next
    case False
    with Cons.prems have "x \<in> set ys" by simp
    then have "0 \<le> indexOf ys x" "splice1 (nat (indexOf ys x)) ys = remove1 x ys"
      using Cons.IH by simp_all
    then show ?thesis
      using False by (simp add: Let_def splice1_def nat_add_distrib)
  qed
qed

lemma tutorial_unsubscribe_remove1:
  "listeners (unsubscribe_tutorial l st) = remove1 l (listeners st)"
proof (cases "l \<in> set (listeners st)")
  case True
  then show ?thesis
    using splice_indexOf [of l "listeners st"] by (simp add: unsubscribe_tutorial_def)
next
  case False
  then show ?thesis
    by (simp add: unsubscribe_tutorial_def indexOf_absent remove1_idem)
qed

lemma tutorial_unsubscribe_absent:
  "l \<notin> set (listeners st) \<Longrightarrow> unsubscribe_tutorial l st = st"
  by (simp add: unsubscribe_tutorial_def indexOf_absent)

lemma run_state:
  "state (fst (run invoke cs (st, w))) = foldl (reducer st) (state st) (dispatched cs)
   \<and> reducer (fst (run invoke cs (st, w))) = reducer st"
  unfolding run_def
proof (induction cs arbitrary: st w)
  case Nil
  show ?case by simp
next
  case (Cons c cs)
  show ?case
  proof (cases c)
    case (Dispatch action)
    then show ?thesis
      using Cons.IH [of "fst (dispatch invoke action (st, w))" "snd (dispatch invoke action (st, w))"]
      by (simp add: dispatch_plain Let_def)
  next
    case (Subscribe l)
    then show ?thesis
      using Cons.IH [of "snd (subscribe l st)" w]
      by (simp add: subscribe_def)
  next
    case (Unsubscribe l)
    then show ?thesis
      using Cons.IH [of "snd (unsubscribe l st)" w]
      by (simp add: unsubscribe_def)
  qed
qed

text \<open>
  The tutorial's closure does what its name says: once it has run, a listener that was
  subscribed once is not notified again.
\<close>

lemma tutorial_unsubscribe_stops_notifications:
  "l \<notin> set (listeners st) \<Longrightarrow>
   (let (unsub, st1) = subscribe_tutorial l st
    in calls l (snd (dispatch record_call action (unsub st1, [])))) = 0"
  by (simp add: subscribe_tutorial_def unsubscribe_tutorial_def indexOf_snoc splice1_def
      dispatch_plain Let_def forEach_record_call calls_def)

lemma tutorial_unsubscribe_once:
  "l \<notin> set (listeners st) \<Longrightarrow>
   fst (subscribe_tutorial l st) (snd (subscribe_tutorial l st)) = st"
  by (simp add: subscribe_tutorial_def unsubscribe_tutorial_def indexOf_snoc splice1_def)

text \<open>
  C1. The claim: a subscribed listener is called once per dispatch until its unsubscribe
  capability is invoked, and never after. In \<^verbatim>\<open>frame.js\<close> the capability computes a filtered
  copy of the listener array and leaves the array itself as it is, so on a new store, after
  subscribing a listener and invoking the capability, the next dispatch still calls the
  listener once.
\<close>

theorem unsubscribe_keeps_listener_notified:
  "(let (unsub, st1) = subscribe l (createStore r);
        st2 = snd (unsub st1)
    in calls l (snd (dispatch record_call action (st2, [])))) = 1"
  by (simp add: subscribe_def unsubscribe_def createStore_def dispatch_plain Let_def
      forEach_record_call calls_def)




text \<open>
  C4. \<^verbatim>\<open>createStore(reducer)\<close> sets the state to \<open>reducer(undefined, {type: '__INIT__'})\<close>,
  which \<^verbatim>\<open>getState()\<close> returns before any dispatch. After any sequence of store calls the
  state is that initial value with the reducer applied to the dispatched actions in order:
  only \<^verbatim>\<open>dispatch\<close> replaces it, and it replaces it with the reducer's result.
\<close>

theorem createStore_initial_state:
  "getState (createStore r) = r Undefined INIT
   \<and> getState (fst (run invoke cs (createStore r, w))) = foldl r (r Undefined INIT) (dispatched cs)"
  using run_state [of invoke cs "createStore r" w]
  by (simp add: getState_def createStore_def)

text \<open>
  C7, as the claim states it, fails for the capability the tutorial prints: with the same
  listener subscribed twice, the capability returned by the second subscription removes one
  entry when it is invoked and the other entry when it is invoked a second time.
\<close>

theorem unsubscribe_twice_counterexample:
  "listeners (snd (subscribe_tutorial 0 (snd (subscribe_tutorial 0 (createStore latest)))))
     = [0, 0]
   \<and> listeners
       (fst (subscribe_tutorial 0 (snd (subscribe_tutorial 0 (createStore latest))))
         (snd (subscribe_tutorial 0 (snd (subscribe_tutorial 0 (createStore latest))))))
     = [0]
   \<and> listeners
       (fst (subscribe_tutorial 0 (snd (subscribe_tutorial 0 (createStore latest))))
         (fst (subscribe_tutorial 0 (snd (subscribe_tutorial 0 (createStore latest))))
           (snd (subscribe_tutorial 0 (snd (subscribe_tutorial 0 (createStore latest)))))))
     = []"
  by (simp add: subscribe_tutorial_def unsubscribe_tutorial_def createStore_def splice1_def)

text \<open>
  C7, amended. Invoking an unsubscribe capability does not fail. The tutorial's capability
  removes one entry of the listener list, the first that is its listener, and nothing when
  there is none: invoked when its listener is not in the list it changes nothing, and so does
  a second invocation when the first removed the listener's only entry, as it does after a
  single subscription. The capability of \<^verbatim>\<open>frame.js\<close> never changes the store, whether its
  listener is in the list or not.
\<close>

theorem unsubscribe_absent_is_noop:
  "listeners (unsubscribe_tutorial l st) = remove1 l (listeners st)
   \<and> (l \<notin> set (listeners st) \<longrightarrow>
        unsubscribe_tutorial l st = st
        \<and> listeners (snd (subscribe_tutorial l st)) = listeners st @ [l]
        \<and> fst (subscribe_tutorial l st) (snd (subscribe_tutorial l st)) = st
        \<and> fst (subscribe_tutorial l st)
            (fst (subscribe_tutorial l st) (snd (subscribe_tutorial l st))) = st)
   \<and> snd (unsubscribe l st) = st
   \<and> snd (fst (subscribe l st) (snd (fst (subscribe l st) (snd (subscribe l st)))))
       = snd (subscribe l st)"
proof -
  have "fst (subscribe_tutorial l st) st = st" if "l \<notin> set (listeners st)"
    using tutorial_unsubscribe_absent [OF that] by (simp add: subscribe_tutorial_def)
  then show ?thesis
    using tutorial_unsubscribe_absent [of l st] tutorial_unsubscribe_once [of l st]
    by (simp add: tutorial_unsubscribe_remove1 unsubscribe_def subscribe_def)
       (simp add: subscribe_tutorial_def)
qed

theorem unsubscribe_absent_is_noop_witness:
  "listeners (snd (subscribe_tutorial 1 (createStore latest))) = [1]
   \<and> unsubscribe_tutorial 0 (snd (subscribe_tutorial 1 (createStore latest)))
       = snd (subscribe_tutorial 1 (createStore latest))
   \<and> listeners (snd (subscribe_tutorial 0 (snd (subscribe_tutorial 1 (createStore latest)))))
       = [1, 0]
   \<and> fst (subscribe_tutorial 0 (snd (subscribe_tutorial 1 (createStore latest))))
       (snd (subscribe_tutorial 0 (snd (subscribe_tutorial 1 (createStore latest)))))
       = snd (subscribe_tutorial 1 (createStore latest))
   \<and> fst (subscribe_tutorial 0 (snd (subscribe_tutorial 1 (createStore latest))))
       (fst (subscribe_tutorial 0 (snd (subscribe_tutorial 1 (createStore latest))))
         (snd (subscribe_tutorial 0 (snd (subscribe_tutorial 1 (createStore latest))))))
       = snd (subscribe_tutorial 1 (createStore latest))"
proof -
  have absent: "0 \<notin> set (listeners (snd (subscribe_tutorial 1 (createStore latest))))"
    by (simp add: subscribe_tutorial_def createStore_def)
  show ?thesis
    using unsubscribe_absent_is_noop [of 0 "snd (subscribe_tutorial 1 (createStore latest))"]
      absent
    by (simp add: subscribe_tutorial_def createStore_def)
qed

text \<open>
  C8. Subscribing the same listener \<open>n\<close> times adds \<open>n\<close> entries to the listener list,
  none merged with another, and a dispatch then calls the listener once per entry: \<open>n\<close>
  times on a store that did not hold it before.
\<close>

theorem repeated_subscription_notified_each_time:
  "listeners (((\<lambda>s. snd (subscribe l s)) ^^ n) st) = listeners st @ replicate n l
   \<and> calls l (snd (dispatch record_call action (((\<lambda>s. snd (subscribe l s)) ^^ n) st, [])))
       = calls l (listeners st) + n
   \<and> calls l (snd (dispatch record_call action
        (((\<lambda>s. snd (subscribe l s)) ^^ n) (createStore r), []))) = n"
  by (simp add: subscribe_funpow dispatch_plain Let_def forEach_record_call calls_append
      calls_replicate) (simp add: createStore_def calls_def)

section \<open>Properties of createElement\<close>

lemma createElement_heap_given:
  "deref h (Ref a) = Some obj \<Longrightarrow>
   createElement_heap type (Ref a) children h =
     (Ref (length h + 2),
      h @ [Array children,
           Object (AList.update ''children'' (Ref (length h)) (entries_at h (Ref a))),
           Object [(''type'', type), (''props'', Ref (length h + 1))]])"
  by (simp add: createElement_heap_def alloc_def entries_at_def nth_append split: if_splits)

text \<open>
  C6. \<^verbatim>\<open>createElement(type, props, ...children)\<close> builds and returns a new node and does
  nothing else. Its \<^verbatim>\<open>props\<close> holds the entries of the given attributes, and under the key
  \<^verbatim>\<open>children\<close> the list of the remaining arguments in order, each as it was passed: an
  argument that is itself an array stays one member of the list. An omitted attributes argument
  counts as the empty object. On the heap the call allocates the array, the new \<^verbatim>\<open>props\<close>
  object and the node after the cells that exist, and copies each attribute value as it is,
  a reference as a reference.
\<close>

theorem createElement_result:
  "createElement type (Obj attributes) children
     = Obj [(''type'', type),
            (''props'', Obj (AList.update ''children'' (Arr children) attributes))]
   \<and> map_of (AList.update ''children'' (Arr children) attributes)
       = (map_of attributes)(''children'' \<mapsto> Arr children)
   \<and> createElement type Undefined children = createElement type (Obj []) children
   \<and> (deref h (Ref a) = Some (Object entries) \<longrightarrow>
        createElement_heap t (Ref a) cs h =
          (Ref (length h + 2),
           h @ [Array cs,
                Object (AList.update ''children'' (Ref (length h)) entries),
                Object [(''type'', t), (''props'', Ref (length h + 1))]]))"
proof -
  have "createElement_heap t (Ref a) cs h =
          (Ref (length h + 2),
           h @ [Array cs,
                Object (AList.update ''children'' (Ref (length h)) entries),
                Object [(''type'', t), (''props'', Ref (length h + 1))]])"
    if "deref h (Ref a) = Some (Object entries)"
    using createElement_heap_given [OF that, of t cs] that
    by (simp add: entries_at_def)
  then show ?thesis
    by (simp add: createElement_def update_conv')
qed

theorem createElement_result_witness:
  "deref [Object [(''id'', HStr ''a'')]] (Ref 0) = Some (Object [(''id'', HStr ''a'')])
   \<and> createElement_heap (HStr ''div'') (Ref 0) [HStr ''hello''] [Object [(''id'', HStr ''a'')]] =
       (Ref 3,
        [Object [(''id'', HStr ''a'')],
         Array [HStr ''hello''],
         Object [(''id'', HStr ''a''), (''children'', Ref 1)],
         Object [(''type'', HStr ''div''), (''props'', Ref 2)]])
   \<and> createElement (Str ''div'') (Obj [(''id'', Str ''a'')]) [Arr [Str ''x'', Str ''y''], Str ''z'']
       = Obj [(''type'', Str ''div''),
              (''props'', Obj [(''id'', Str ''a''),
                               (''children'', Arr [Arr [Str ''x'', Str ''y''], Str ''z''])])]"
  using createElement_result
    [of "Str ''div''" "[(''id'', Str ''a'')]" "[Arr [Str ''x'', Str ''y''], Str ''z'']"
        "[Object [(''id'', HStr ''a'')]]" 0 "[(''id'', HStr ''a'')]" "HStr ''div''"
        "[HStr ''hello'']"]
  by simp

text \<open>
  C9. When the attributes object passed to \<^verbatim>\<open>createElement\<close> has a key \<^verbatim>\<open>children\<close>,
  the \<^verbatim>\<open>props\<close> of the new node holds the array of the remaining arguments under that key
  and the other attributes unchanged. \<^verbatim>\<open>props\<close> is a new object, not the caller's; the
  caller's object, like every object that existed before the call, is as it was.
\<close>

theorem createElement_heap_children:
  assumes "deref h (Ref a) = Some (Object attributes)"
    and "map_of attributes ''children'' = Some x"
  shows "case createElement_heap type (Ref a) children h of
           (v, h') \<Rightarrow>
             take (length h) h' = h
             \<and> deref h' (Ref a) = Some (Object attributes)
             \<and> property h' v ''type'' = Some type
             \<and> (\<exists>p c. property h' v ''props'' = Some (Ref p) \<and> p \<noteq> a
                  \<and> property h' (Ref p) ''children'' = Some (Ref c)
                  \<and> deref h' (Ref c) = Some (Array children)
                  \<and> (\<forall>k. k \<noteq> ''children'' \<longrightarrow>
                        property h' (Ref p) k = map_of attributes k))"
proof -
  define h' where
    "h' = h @ [Array children,
               Object (AList.update ''children'' (Ref (length h)) attributes),
               Object [(''type'', type), (''props'', Ref (length h + 1))]]"
  have a: "a < length h" "h ! a = Object attributes"
    using assms(1) by (auto split: if_splits)
  have result: "createElement_heap type (Ref a) children h = (Ref (length h + 2), h')"
    using a by (simp add: createElement_heap_given [OF assms(1)] entries_at_def h'_def)
  have old: "take (length h) h' = h" "deref h' (Ref a) = Some (Object attributes)"
    using a by (simp_all add: h'_def nth_append)
  have node: "property h' (Ref (length h + 2)) ''type'' = Some type"
    "property h' (Ref (length h + 2)) ''props'' = Some (Ref (length h + 1))"
    by (simp_all add: h'_def property_def nth_append)
  have props: "property h' (Ref (length h + 1)) ''children'' = Some (Ref (length h))"
    "\<And>k. k \<noteq> ''children'' \<Longrightarrow> property h' (Ref (length h + 1)) k = map_of attributes k"
    by (simp_all add: h'_def property_def nth_append update_conv')
  have array: "deref h' (Ref (length h)) = Some (Array children)"
    by (simp add: h'_def nth_append)
  have "length h + 1 \<noteq> a" using a(1) by simp
  with node(2) props array
  have "\<exists>p c. property h' (Ref (length h + 2)) ''props'' = Some (Ref p) \<and> p \<noteq> a
          \<and> property h' (Ref p) ''children'' = Some (Ref c)
          \<and> deref h' (Ref c) = Some (Array children)
          \<and> (\<forall>k. k \<noteq> ''children'' \<longrightarrow> property h' (Ref p) k = map_of attributes k)"
    by blast
  with old node(1) show ?thesis
    by (simp add: result del: deref.simps)
qed

theorem createElement_heap_children_witness:
  "case createElement_heap (HStr ''div'') (Ref 0) [HStr ''hello'']
          [Object [(''children'', HNum 7), (''id'', HStr ''a'')]] of
     (v, h') \<Rightarrow>
       deref h' (Ref 0) = Some (Object [(''children'', HNum 7), (''id'', HStr ''a'')])
       \<and> (\<exists>p c. property h' v ''props'' = Some (Ref p)
            \<and> property h' (Ref p) ''children'' = Some (Ref c)
            \<and> deref h' (Ref c) = Some (Array [HStr ''hello'']))"
proof -
  have h: "deref [Object [(''children'', HNum 7), (''id'', HStr ''a'')]] (Ref 0)
             = Some (Object [(''children'', HNum 7), (''id'', HStr ''a'')])"
    by simp
  have m: "map_of [(''children'', HNum 7), (''id'', HStr ''a'')] ''children'' = Some (HNum 7)"
    by simp
  show ?thesis
    using createElement_heap_children [OF h m, of "HStr ''div''" "[HStr ''hello'']"]
    by (auto split: prod.splits simp del: deref.simps)
qed

text \<open>
  The two versions of \<^verbatim>\<open>createElement\<close> agree: called on heap values that represent
  trees, the heap version returns a value that represents what the version on trees returns,
  and leaves the cells that existed alone.
\<close>

lemma represents_extend: "represents h v x \<Longrightarrow> represents (h @ h') v x"
proof (induction rule: represents.induct)
  case (7 h a xs vs)
  have "deref (h @ h') (Ref a) = Some (Array xs)"
    using 7(1) by (auto simp: nth_append split: if_splits)
  moreover have "list_all2 (represents (h @ h')) xs vs"
    using 7(2) by (rule list_all2_mono) simp
  ultimately show ?case by (rule represents.intros)
next
  case (8 h a kvs kvs')
  have "deref (h @ h') (Ref a) = Some (Object kvs)"
    using 8(1) by (auto simp: nth_append split: if_splits)
  moreover have "list_all2 (\<lambda>kx kv. fst kx = fst kv \<and> represents (h @ h') (snd kx) (snd kv))
                   kvs kvs'"
    using 8(2) by (rule list_all2_mono) simp
  ultimately show ?case by (rule represents.intros)
qed (rule represents.intros)+

lemma entries_represent:
  assumes "represents h v x"
  shows "list_all2 (\<lambda>kx kv. fst kx = fst kv \<and> represents h (snd kx) (snd kv))
           (entries_at h v) (own_entries x)"
  using assms
proof (cases rule: represents.cases)
  case (5 s)
  then show ?thesis
    by (auto simp: entries_at_def list_all2_conv_all_nth intro: represents.intros)
next
  case (7 a xs vs)
  then show ?thesis
    by (auto simp: entries_at_def list_all2_conv_all_nth simp del: deref.simps)
next
  case (8 a kvs kvs')
  then show ?thesis
    by (auto simp: entries_at_def simp del: deref.simps)
qed (simp_all add: entries_at_def)

lemma update_represent:
  assumes "list_all2 (\<lambda>kx kv. fst kx = fst kv \<and> R (snd kx) (snd kv)) es es'" and "R x x'"
  shows "list_all2 (\<lambda>kx kv. fst kx = fst kv \<and> R (snd kx) (snd kv))
           (AList.update k x es) (AList.update k x' es')"
  using assms(1)
proof (induction rule: list_all2_induct)
  case Nil
  show ?case using assms(2) by simp
next
  case (Cons e es e' es')
  then show ?case using assms(2) by (cases e; cases e') auto
qed

lemma createElement_heap_refines:
  assumes "represents h type type'" and "represents h props props'"
    and "list_all2 (represents h) children children'"
  shows "case createElement_heap type props children h of
           (v, h') \<Rightarrow> represents h' v (createElement type' props' children')
                     \<and> take (length h) h' = h"
proof -
  define h0 where "h0 = (if props = HUndefined then h @ [Object []] else h)"
  define q where "q = (if props = HUndefined then Ref (length h) else props)"
  define q' where "q' = (if props' = Undefined then Obj [] else props')"
  have undef: "props = HUndefined \<longleftrightarrow> props' = Undefined"
    using assms(2) by (cases rule: represents.cases) simp_all
  have ext: "\<exists>hx. h0 = h @ hx" by (simp add: h0_def)
  have q: "represents h0 q q'"
  proof (cases "props = HUndefined")
    case True
    have "represents (h @ [Object []]) (Ref (length h)) (Obj [])"
      by (rule represents.intros(8) [of _ _ "[]"]) simp_all
    with True undef show ?thesis by (simp add: h0_def q_def q'_def)
  next
    case False
    with undef assms(2) show ?thesis by (simp add: h0_def q_def q'_def)
  qed
  define c where "c = length h0"
  define h1 where "h1 = h0 @ [Array children]"
  define p where "p = length h1"
  define es where "es = AList.update ''children'' (Ref c) (entries_at h1 q)"
  define h2 where "h2 = h1 @ [Object es]"
  define v where "v = length h2"
  define h3 where "h3 = h2 @ [Object [(''type'', type), (''props'', Ref p)]]"
  have result: "createElement_heap type props children h = (Ref v, h3)"
    by (simp add: createElement_heap_def alloc_def Let_def h0_def q_def c_def h1_def p_def
        es_def h2_def v_def h3_def)
  have h1: "\<exists>hx. h1 = h @ hx" using ext by (auto simp: h1_def)
  have children: "represents h1 (Ref c) (Arr children')"
  proof (rule represents.intros(7))
    show "deref h1 (Ref c) = Some (Array children)" by (simp add: h1_def c_def)
    show "list_all2 (represents h1) children children'"
      using assms(3) h1 by (auto intro: list_all2_mono represents_extend)
  qed
  have "represents h1 q q'" using q by (simp add: h1_def represents_extend)
  then have "list_all2 (\<lambda>kx kv. fst kx = fst kv \<and> represents h1 (snd kx) (snd kv))
               es (AList.update ''children'' (Arr children') (own_entries q'))"
    unfolding es_def by (intro update_represent entries_represent children)
  then have "list_all2 (\<lambda>kx kv. fst kx = fst kv \<and> represents h3 (snd kx) (snd kv))
               es (AList.update ''children'' (Arr children') (own_entries q'))"
    by (rule list_all2_mono) (auto simp: h3_def h2_def intro: represents_extend)
  moreover have "deref h3 (Ref p) = Some (Object es)"
    by (simp add: h3_def h2_def p_def nth_append)
  ultimately have props: "represents h3 (Ref p)
      (Obj (AList.update ''children'' (Arr children') (own_entries q')))"
    by (rule represents.intros(8) [rotated])
  have type: "represents h3 type type'"
    using assms(1) h1 by (auto simp: h3_def h2_def intro: represents_extend)
  have "represents h3 (Ref v)
          (Obj [(''type'', type'),
                (''props'', Obj (AList.update ''children'' (Arr children') (own_entries q')))])"
    by (rule represents.intros(8) [of _ _ "[(''type'', type), (''props'', Ref p)]"])
       (simp_all add: h3_def v_def type [unfolded h3_def] props [unfolded h3_def])
  moreover have "take (length h) h3 = h"
    using h1 by (auto simp: h3_def h2_def)
  ultimately show ?thesis
    by (simp add: result createElement_def q'_def Let_def)
qed

section \<open>Properties of the materializer and the renderer\<close>

declare renderElement.simps [simp del]

lemma renderElement_Str: "renderElement (Str s) = Inr (TextNode s)"
  by (simp add: renderElement.simps document_createTextNode_def)

lemma renderElement_Obj:
  "renderElement (Obj kvs) =
     (let t = (case map_of kvs ''type'' of Some x \<Rightarrow> x | None \<Rightarrow> Undefined);
          p = (case map_of kvs ''props'' of Some x \<Rightarrow> x | None \<Rightarrow> Undefined)
      in assign_entries renderElement (own_entries (if truthy p then p else Obj []))
           (Element t [] []))"
  by (subst renderElement.simps)
     (auto simp add: Object_entries_def document_createElement_def Let_def)

lemma update_absent: "k \<notin> set (map fst al) \<Longrightarrow> AList.update k v al = al @ [(k, v)]"
  by (induction al) auto

lemma assign_entries_append:
  "assign_entries r (es @ es') el =
     (case assign_entries r es el of Inl e \<Rightarrow> Inl e | Inr el' \<Rightarrow> assign_entries r es' el')"
  by (induction es arbitrary: el) (simp_all split: sum.splits)

lemma assign_attributes:
  "''children'' \<notin> set (map fst es) \<Longrightarrow> ''innerHTML'' \<notin> set (map fst es) \<Longrightarrow>
   ''__proto__'' \<notin> set (map fst es) \<Longrightarrow>
   distinct (map fst es) \<Longrightarrow> set (map fst ps) \<inter> set (map fst es) = {} \<Longrightarrow>
   assign_entries r es (Element t ps cs) = Inr (Element t (ps @ es) cs)"
proof (induction es arbitrary: ps)
  case Nil
  show ?case by simp
next
  case (Cons entry rest)
  obtain k x where entry: "entry = (k, x)" by (cases entry)
  have k: "k \<notin> set (map fst ps)" "k \<noteq> ''children''" "k \<noteq> ''innerHTML''"
    "k \<noteq> ''__proto__''"
    using Cons.prems by (auto simp: entry)
  have "assign_entries r rest (Element t (ps @ [(k, x)]) cs)
        = Inr (Element t ((ps @ [(k, x)]) @ rest) cs)"
    using Cons.prems by (intro Cons.IH) (auto simp: entry)
  then show ?case
    using k by (simp add: entry update_absent)
qed



text \<open>
  The scenario of the specification:
  \<^verbatim>\<open>createElement('div', {id: 'a'}, 'hello', createElement('span', {}, 'world'))\<close>
  materializes to a \<^verbatim>\<open>div\<close> with \<^verbatim>\<open>id = a\<close> holding the text \<^verbatim>\<open>hello\<close> and then a
  \<^verbatim>\<open>span\<close> holding the text \<^verbatim>\<open>world\<close>.
\<close>

lemma scenario_div_hello_span_world:
  "renderElement
     (createElement (Str ''div'') (Obj [(''id'', Str ''a'')])
        [Str ''hello'', createElement (Str ''span'') (Obj []) [Str ''world'']])
   = Inr (Element (Str ''div'') [(''id'', Str ''a'')]
            [TextNode ''hello'', Element (Str ''span'') [] [TextNode ''world'']])"
  by (simp add: createElement_def renderElement_Obj renderElement_Str forEach_child_def)

text \<open>
  An attribute named \<^verbatim>\<open>appendChild\<close> whose value is not a function stops the
  materialization of any element that has a child: the attribute is assigned first, and the
  call \<^verbatim>\<open>element.appendChild(...)\<close> for the first child finds it.
\<close>

lemma shadowed_appendChild_fails:
  assumes "well_formed (VElement tag attributes (c # children))"
    and "map_of attributes ''appendChild'' = Some x" and "\<forall>f. x \<noteq> Fun f"
    and "''innerHTML'' \<notin> set (map fst attributes)"
    and "''__proto__'' \<notin> set (map fst attributes)"
    and "renderElement (toJS c) = Inr node"
  shows "renderElement (toJS (VElement tag attributes (c # children))) = Inl TypeError"
proof -
  have wf: "distinct (map fst attributes)" "''children'' \<notin> set (map fst attributes)"
    using assms(1) by simp_all
  have attrs: "assign_entries renderElement attributes (Element (Str tag) [] [])
                 = Inr (Element (Str tag) attributes [])"
    using assign_attributes [of attributes "[]" renderElement "Str tag" "[]"] wf assms(4,5)
    by simp
  have "appendChild node (Element (Str tag) attributes []) = Inl TypeError"
    using assms(2,3) by (cases x) simp_all
  then show ?thesis
    using wf(2) attrs assms(6)
    by (simp add: createElement_def renderElement_Obj update_absent assign_entries_append
        forEach_child_def)
qed




lemma clear_twice: "clear_innerHTML (clear_innerHTML container) = clear_innerHTML container"
  by (cases container) (simp_all add: clear_innerHTML_def parsed_def)

lemma emptied: "childNodes (clear_innerHTML container) = []"
  by (cases container) (simp_all add: clear_innerHTML_def parsed_def)

lemma appended_to_emptied:
  assumes "appendChild node (clear_innerHTML container) = Inr container'"
  shows "clear_innerHTML container' = clear_innerHTML container"
    and "length (childNodes container') \<le> 1"
proof -
  obtain t ps cs where container: "container = Element t ps cs"
    using assms by (cases container) (simp_all add: clear_innerHTML_def)
  have "container' = Element t ps [node]"
    using assms unfolding container
    by (simp add: clear_innerHTML_def parsed_def split: option.splits jsval.splits)
  then show "clear_innerHTML container' = clear_innerHTML container"
    and "length (childNodes container') \<le> 1"
    by (simp_all add: container clear_innerHTML_def parsed_def)
qed

text \<open>
  C5. Rendering the same node into a container twice gives what rendering it once gives.
  The call empties the container before it appends, so the children the container had before
  have no influence, and the container ends with at most the one new child.
\<close>

theorem render_twice:
  "render vNode (snd (render vNode container)) = render vNode container
   \<and> snd (render vNode (Element t ps cs)) = snd (render vNode (Element t ps []))
   \<and> childNodes (clear_innerHTML container) = []
   \<and> length (childNodes (snd (render vNode container))) \<le> 1"
proof -
  have same: "clear_innerHTML (Element t ps cs) = clear_innerHTML (Element t ps [])"
    by (simp add: clear_innerHTML_def)
  have "render vNode (snd (render vNode container)) = render vNode container
        \<and> length (childNodes (snd (render vNode container))) \<le> 1"
  proof (cases "renderElement vNode")
    case (Inl e)
    then show ?thesis by (simp add: render_def clear_twice emptied)
  next
    case (Inr node)
    show ?thesis
    proof (cases "appendChild node (clear_innerHTML container)")
      case (Inl e)
      with Inr show ?thesis by (simp add: render_def clear_twice emptied)
    next
      case appended: (Inr container')
      have "clear_innerHTML container' = clear_innerHTML container"
        "length (childNodes container') \<le> 1"
        using appended by (rule appended_to_emptied)+
      with Inr appended show ?thesis by (simp add: render_def)
    qed
  qed
  then show ?thesis
    by (simp add: emptied) (simp add: render_def same)
qed

text \<open>
  C10. Materializing an element node whose \<^verbatim>\<open>props\<close> is absent, \<^verbatim>\<open>null\<close> or
  \<^verbatim>\<open>undefined\<close> does not fail: the result is an element of the given type with no property
  assigned and no child appended.
\<close>

theorem renderElement_without_props:
  assumes "map_of kvs ''type'' = Some tag"
    and "map_of kvs ''props'' = None \<or> map_of kvs ''props'' = Some Null
         \<or> map_of kvs ''props'' = Some Undefined"
  shows "renderElement (Obj kvs) = Inr (Element tag [] [])"
  using assms by (auto simp add: renderElement_Obj)

theorem renderElement_without_props_witness:
  "renderElement (Obj [(''type'', Str ''div'')]) = Inr (Element (Str ''div'') [] [])
   \<and> renderElement (Obj [(''type'', Str ''div''), (''props'', Null)])
       = Inr (Element (Str ''div'') [] [])
   \<and> renderElement (Obj [(''type'', Str ''div''), (''props'', Undefined)])
       = Inr (Element (Str ''div'') [] [])"
  using renderElement_without_props [of "[(''type'', Str ''div'')]" "Str ''div''"]
    renderElement_without_props [of "[(''type'', Str ''div''), (''props'', Null)]" "Str ''div''"]
    renderElement_without_props [of "[(''type'', Str ''div''), (''props'', Undefined)]" "Str ''div''"]
  by simp

end
